theory Spec2Isabelle
  imports Complex_Main
begin

section \<open>HiitHero: the timer state machine\<close>

text \<open>
  The timer of \<^verbatim>\<open>createTimer(config, callbacks)\<close> is a closure over a
  \<^verbatim>\<open>state\<close> object and three variables (\<^verbatim>\<open>rafId\<close>, \<^verbatim>\<open>lastTimestamp\<close>,
  \<^verbatim>\<open>lastDisplayedSecond\<close>). It talks to its environment through six callbacks and
  through the host's \<^verbatim>\<open>requestAnimationFrame\<close> / \<^verbatim>\<open>cancelAnimationFrame\<close>.

  The embedding threads one record through every function. The record holds the
  fields of \<^verbatim>\<open>state\<close>, the three closure variables, the host's list of pending
  animation-frame handles, and the list of callback invocations made so far.
  JavaScript numbers that carry time (timestamps, \<^verbatim>\<open>timeRemaining\<close>,
  \<^verbatim>\<open>phaseDuration\<close>) are modelled as reals, round counters and configured seconds as
  integers. A callback is recorded when it is called; it returns normally and does not
  call back into the timer, as is the case for the callbacks of the application
  controller.
\<close>

subsection \<open>Data\<close>

datatype status = IDLE | COUNTDOWN | WORK | REST | PAUSED | COMPLETE

datatype cue = CueStart | CueWorkToRest | CueRestToWork | CueComplete | CueCountdown

record config =
  workDuration :: int
  restDuration :: int
  rounds :: int

text \<open>The object handed to \<^verbatim>\<open>onTick\<close> and the one returned by \<^verbatim>\<open>getState\<close>
  have the same five fields.\<close>

record snapshot =
  snapStatus :: status
  snapCurrentRound :: int
  snapTotalRounds :: int
  snapTimeRemaining :: real
  snapPhaseDuration :: real

text \<open>One constructor per callback; \<open>OnComplete\<close> carries \<^verbatim>\<open>rounds\<close>,
  \<^verbatim>\<open>workDuration\<close>, \<^verbatim>\<open>restDuration\<close>.\<close>

datatype event =
    OnTick snapshot
  | OnPhaseChange status
  | OnRoundChange int int
  | OnSound cue
  | OnComplete int int int
  | OnStateChange status

record timer =
  status :: status
  previousStatus :: "status option"
  currentRound :: int
  totalRounds :: int
  timeRemaining :: real
  phaseDuration :: real
  rafId :: "nat option"
  lastTimestamp :: "real option"
  lastDisplayedSecond :: "int option"
  frames :: "nat list"
  nextHandle :: nat
  calls :: "event list"

subsection \<open>The host: animation frames and callbacks\<close>

definition emit :: "event \<Rightarrow> timer \<Rightarrow> timer" where
  "emit e w = w\<lparr>calls := calls w @ [e]\<rparr>"

text \<open>\<^verbatim>\<open>rafId = requestAnimationFrame(tick)\<close>: the host hands out a fresh positive
  handle and queues the callback.\<close>

definition requestAnimationFrame :: "timer \<Rightarrow> timer" where
  "requestAnimationFrame w =
     w\<lparr>rafId := Some (nextHandle w),
       frames := frames w @ [nextHandle w],
       nextHandle := Suc (nextHandle w)\<rparr>"

text \<open>\<^verbatim>\<open>if (rafId) { cancelAnimationFrame(rafId); rafId = null; }\<close>: a handle is
  truthy when it is not zero; cancelling a handle that is no longer queued does nothing.\<close>

definition cancelPending :: "timer \<Rightarrow> timer" where
  "cancelPending w =
     (case rafId w of
        None \<Rightarrow> w
      | Some h \<Rightarrow>
          if h \<noteq> 0 then w\<lparr>frames := removeAll h (frames w), rafId := None\<rparr> else w)"

subsection \<open>The timer's functions\<close>

definition createTimer :: "config \<Rightarrow> timer" where
  "createTimer cfg =
     \<lparr>status = IDLE, previousStatus = None, currentRound = 1, totalRounds = rounds cfg,
      timeRemaining = 0, phaseDuration = 0,
      rafId = None, lastTimestamp = None, lastDisplayedSecond = None,
      frames = [], nextHandle = 1, calls = []\<rparr>"

definition getState :: "timer \<Rightarrow> snapshot" where
  "getState w =
     \<lparr>snapStatus = status w, snapCurrentRound = currentRound w,
      snapTotalRounds = totalRounds w, snapTimeRemaining = timeRemaining w,
      snapPhaseDuration = phaseDuration w\<rparr>"

definition emitTick :: "timer \<Rightarrow> timer" where
  "emitTick w = emit (OnTick (getState w)) w"

definition handlePhaseEnd :: "config \<Rightarrow> timer \<Rightarrow> timer" where
  "handlePhaseEnd cfg w =
     (if status w = COUNTDOWN then
        requestAnimationFrame
          (emit (OnSound CueStart)
            (emit (OnPhaseChange WORK)
              (w\<lparr>status := WORK,
                 timeRemaining := real_of_int (workDuration cfg * 1000),
                 phaseDuration := real_of_int (workDuration cfg * 1000),
                 lastDisplayedSecond := None\<rparr>)))
      else if status w = WORK then
        (if currentRound w \<ge> totalRounds w then
           emit (OnStateChange COMPLETE)
             (emit (OnSound CueComplete)
               (emit (OnComplete (totalRounds w) (workDuration cfg) (restDuration cfg))
                 (w\<lparr>status := COMPLETE\<rparr>)))
         else
           requestAnimationFrame
             (emit (OnSound CueWorkToRest)
               (emit (OnPhaseChange REST)
                 (w\<lparr>status := REST,
                    timeRemaining := real_of_int (restDuration cfg * 1000),
                    phaseDuration := real_of_int (restDuration cfg * 1000),
                    lastDisplayedSecond := None\<rparr>))))
      else if status w = REST then
        requestAnimationFrame
          (emit (OnSound CueRestToWork)
            (emit (OnRoundChange (currentRound w + 1) (totalRounds w))
              (emit (OnPhaseChange WORK)
                (w\<lparr>currentRound := currentRound w + 1,
                   status := WORK,
                   timeRemaining := real_of_int (workDuration cfg * 1000),
                   phaseDuration := real_of_int (workDuration cfg * 1000),
                   lastDisplayedSecond := None\<rparr>))))
      else w)"

text \<open>Lines 43 to 53 of \<^verbatim>\<open>tick\<close>: the time charged by a tick at \<open>ts\<close>. With no
  previous timestamp the difference is zero; a difference above 1000 is cut to 1000.\<close>

definition tickDelta :: "real \<Rightarrow> timer \<Rightarrow> real" where
  "tickDelta ts w =
     (let last = (case lastTimestamp w of None \<Rightarrow> ts | Some l \<Rightarrow> l);
          delta = ts - last
      in if delta > 1000 then 1000 else delta)"

definition tick :: "config \<Rightarrow> real \<Rightarrow> timer \<Rightarrow> timer" where
  "tick cfg ts w =
     (let delta = tickDelta ts w;
          w1 = w\<lparr>lastTimestamp := Some ts, timeRemaining := timeRemaining w - delta\<rparr>
      in if timeRemaining w1 \<le> 0 then
           handlePhaseEnd cfg (emitTick (w1\<lparr>timeRemaining := 0\<rparr>))
         else
           (let currentSecond = \<lceil>timeRemaining w1 / 1000\<rceil>;
                w2 = (if Some currentSecond \<noteq> lastDisplayedSecond w1 then
                        (let w' = w1\<lparr>lastDisplayedSecond := Some currentSecond\<rparr>
                         in if currentSecond \<le> 3 \<and> currentSecond \<ge> 1 \<and> status w' \<noteq> COUNTDOWN
                            then emit (OnSound CueCountdown) w' else w')
                      else w1)
            in requestAnimationFrame (emitTick w2)))"

definition start :: "config \<Rightarrow> timer \<Rightarrow> timer" where
  "start cfg w =
     (if status w \<noteq> IDLE then w
      else
        requestAnimationFrame
          (emit (OnStateChange COUNTDOWN)
            (emit (OnRoundChange 1 (rounds cfg))
              (emit (OnPhaseChange COUNTDOWN)
                (w\<lparr>currentRound := 1,
                   totalRounds := rounds cfg,
                   status := COUNTDOWN,
                   timeRemaining := 3000,
                   phaseDuration := 3000,
                   lastTimestamp := None,
                   lastDisplayedSecond := None\<rparr>)))))"

definition pause :: "timer \<Rightarrow> timer" where
  "pause w =
     (if status w \<noteq> COUNTDOWN \<and> status w \<noteq> WORK \<and> status w \<noteq> REST then w
      else
        (let w1 = cancelPending w
         in emit (OnStateChange PAUSED)
              (w1\<lparr>previousStatus := Some (status w1), status := PAUSED\<rparr>)))"

definition resume :: "timer \<Rightarrow> timer" where
  "resume w =
     (case previousStatus w of
        None \<Rightarrow> w
      | Some p \<Rightarrow>
          if status w \<noteq> PAUSED then w
          else
            requestAnimationFrame
              (emit (OnStateChange p)
                (w\<lparr>status := p, previousStatus := None, lastTimestamp := None\<rparr>)))"

definition reset :: "timer \<Rightarrow> timer" where
  "reset w =
     emit (OnStateChange IDLE)
       ((cancelPending w)
          \<lparr>status := IDLE, previousStatus := None, currentRound := 1,
           timeRemaining := 0, phaseDuration := 0,
           lastTimestamp := None, lastDisplayedSecond := None\<rparr>)"

definition skip :: "config \<Rightarrow> timer \<Rightarrow> timer" where
  "skip cfg w =
     (let w1 = (case previousStatus w of
                  Some p \<Rightarrow> if status w = PAUSED
                            then w\<lparr>status := p, previousStatus := None\<rparr> else w
                | None \<Rightarrow> w)
      in if status w1 \<noteq> WORK \<and> status w1 \<noteq> REST \<and> status w1 \<noteq> COUNTDOWN then w1
         else handlePhaseEnd cfg (cancelPending (w1\<lparr>timeRemaining := 0\<rparr>)))"

subsection \<open>Runs\<close>

text \<open>What can happen to a timer: one of the five public operations is called, or the
  host presents a frame at timestamp \<open>ts\<close> and runs the oldest queued callback (every
  queued callback is \<^verbatim>\<open>tick\<close>). A frame with nothing queued runs nothing.\<close>

datatype action = Start | Pause | Resume | Reset | Skip | Frame real

definition frame :: "config \<Rightarrow> real \<Rightarrow> timer \<Rightarrow> timer" where
  "frame cfg ts w =
     (case frames w of
        [] \<Rightarrow> w
      | h # hs \<Rightarrow> tick cfg ts (w\<lparr>frames := hs\<rparr>))"

fun step :: "config \<Rightarrow> action \<Rightarrow> timer \<Rightarrow> timer" where
  "step cfg Start w = start cfg w"
| "step cfg Pause w = pause w"
| "step cfg Resume w = resume w"
| "step cfg Reset w = reset w"
| "step cfg Skip w = skip cfg w"
| "step cfg (Frame ts) w = frame cfg ts w"

definition exec :: "config \<Rightarrow> action list \<Rightarrow> timer \<Rightarrow> timer" where
  "exec cfg as w = foldl (\<lambda>v a. step cfg a v) w as"

text \<open>The configurations of the data model: seconds in 5..300, rounds in 1..50.\<close>

definition valid_config :: "config \<Rightarrow> bool" where
  "valid_config cfg \<longleftrightarrow>
     5 \<le> workDuration cfg \<and> workDuration cfg \<le> 300 \<and>
     5 \<le> restDuration cfg \<and> restDuration cfg \<le> 300 \<and>
     1 \<le> rounds cfg \<and> rounds cfg \<le> 50"

text \<open>The callbacks made between two points of a run.\<close>

definition emitted :: "timer \<Rightarrow> timer \<Rightarrow> event list" where
  "emitted w w' = drop (length (calls w)) (calls w')"

subsection \<open>An invariant of every run\<close>

definition active :: "status \<Rightarrow> bool" where
  "active s \<longleftrightarrow> s = COUNTDOWN \<or> s = WORK \<or> s = REST"

text \<open>The phase a timer is in: its status, or the interrupted status while paused.\<close>

definition phase :: "timer \<Rightarrow> status" where
  "phase w = (case previousStatus w of None \<Rightarrow> status w | Some p \<Rightarrow> p)"

definition timer_inv :: "config \<Rightarrow> timer \<Rightarrow> bool" where
  "timer_inv cfg w \<longleftrightarrow>
     totalRounds w = rounds cfg \<and>
     1 \<le> currentRound w \<and> currentRound w \<le> totalRounds w \<and>
     (case previousStatus w of
        None \<Rightarrow> status w \<noteq> PAUSED
      | Some p \<Rightarrow> status w = PAUSED \<and> active p) \<and>
     (case phase w of
        IDLE \<Rightarrow> currentRound w = 1 \<and> timeRemaining w = 0 \<and> phaseDuration w = 0
      | COUNTDOWN \<Rightarrow> currentRound w = 1 \<and> phaseDuration w = 3000 \<and> 0 < timeRemaining w
      | WORK \<Rightarrow> phaseDuration w = real_of_int (workDuration cfg * 1000) \<and> 0 < timeRemaining w
      | REST \<Rightarrow> phaseDuration w = real_of_int (restDuration cfg * 1000) \<and> 0 < timeRemaining w
                 \<and> currentRound w < totalRounds w
      | PAUSED \<Rightarrow> False
      | COMPLETE \<Rightarrow> phaseDuration w = real_of_int (workDuration cfg * 1000)
                 \<and> timeRemaining w = 0 \<and> currentRound w = totalRounds w) \<and>
     (if active (status w)
      then (case rafId w of None \<Rightarrow> False | Some h \<Rightarrow> h \<noteq> 0 \<and> frames w = [h])
      else frames w = []) \<and>
     0 < nextHandle w"

text \<open>What \<^verbatim>\<open>handlePhaseEnd\<close> is given by \<^verbatim>\<open>tick\<close> and by \<^verbatim>\<open>skip\<close>: an active
  phase with no time left and no frame queued.\<close>

definition phase_end_ready :: "config \<Rightarrow> timer \<Rightarrow> bool" where
  "phase_end_ready cfg w \<longleftrightarrow>
     totalRounds w = rounds cfg \<and> 1 \<le> currentRound w \<and> currentRound w \<le> totalRounds w \<and>
     previousStatus w = None \<and> active (status w) \<and>
     (status w = COUNTDOWN \<longrightarrow> currentRound w = 1) \<and>
     (status w = REST \<longrightarrow> currentRound w < totalRounds w) \<and>
     (status w = WORK \<longrightarrow> phaseDuration w = real_of_int (workDuration cfg * 1000)) \<and>
     timeRemaining w = 0 \<and>
     frames w = [] \<and> 0 < nextHandle w"

subsection \<open>Sample configuration\<close>

text \<open>A small valid configuration: 30 s work, 15 s rest, 2 rounds.\<close>

definition cfg0 :: config where
  "cfg0 = \<lparr>workDuration = 30, restDuration = 15, rounds = 2\<rparr>"

subsection \<open>Observing callbacks\<close>

text \<open>The callbacks \<^verbatim>\<open>handlePhaseEnd\<close> makes, in order, read off its three branches.\<close>

definition phaseEndCalls :: "config \<Rightarrow> timer \<Rightarrow> event list" where
  "phaseEndCalls cfg w =
     (if status w = COUNTDOWN then [OnPhaseChange WORK, OnSound CueStart]
      else if status w = WORK then
        (if currentRound w \<ge> totalRounds w
         then [OnComplete (totalRounds w) (workDuration cfg) (restDuration cfg),
               OnSound CueComplete, OnStateChange COMPLETE]
         else [OnPhaseChange REST, OnSound CueWorkToRest])
      else if status w = REST then
        [OnPhaseChange WORK, OnRoundChange (currentRound w + 1) (totalRounds w),
         OnSound CueRestToWork]
      else [])"

text \<open>The statuses passed to \<^verbatim>\<open>onStateChange\<close>, and those passed to
  \<^verbatim>\<open>onPhaseChange\<close>, in a list of callbacks.\<close>

text \<open>The snapshots passed to \<^verbatim>\<open>onTick\<close> in a list of callbacks.\<close>

fun ticks :: "event list \<Rightarrow> snapshot list" where
  "ticks [] = []"
| "ticks (OnTick s # es) = s # ticks es"
| "ticks (e # es) = ticks es"

fun stateChanges :: "event list \<Rightarrow> status list" where
  "stateChanges [] = []"
| "stateChanges (OnStateChange s # es) = s # stateChanges es"
| "stateChanges (e # es) = stateChanges es"

fun phaseChanges :: "event list \<Rightarrow> status list" where
  "phaseChanges [] = []"
| "phaseChanges (OnPhaseChange s # es) = s # phaseChanges es"
| "phaseChanges (e # es) = phaseChanges es"

subsection \<open>Sample runs\<close>

text \<open>A countdown with 1000 ms left, a timer paused during its countdown, and a
  timer just started.\<close>

definition run3 :: timer where
  "run3 = exec cfg0 [Start, Frame 0, Frame 1000, Frame 2000] (createTimer cfg0)"

definition paused1 :: timer where
  "paused1 = exec cfg0 [Start, Frame 0, Frame 1000, Pause] (createTimer cfg0)"

definition started :: timer where
  "started = exec cfg0 [Start] (createTimer cfg0)"

subsection \<open>Observing a whole run\<close>

text \<open>A step ends a phase when it reaches \<^verbatim>\<open>handlePhaseEnd\<close> in an active phase:
  \<^verbatim>\<open>skip()\<close> passes its status check (after restoring a paused status), or a queued
  tick finds no time left after charging its delta.\<close>

definition expires :: "config \<Rightarrow> action \<Rightarrow> timer \<Rightarrow> bool" where
  "expires cfg a w =
     (case a of
        Skip \<Rightarrow> active (status w) \<or>
                (status w = PAUSED \<and> (case previousStatus w of None \<Rightarrow> False | Some p \<Rightarrow> active p))
      | Frame ts \<Rightarrow> frames w \<noteq> [] \<and> active (status w) \<and> timeRemaining w - tickDelta ts w \<le> 0
      | _ \<Rightarrow> False)"

text \<open>The number of phase ends in a run of actions from \<open>w\<close>.\<close>

fun expiries :: "config \<Rightarrow> action list \<Rightarrow> timer \<Rightarrow> nat" where
  "expiries cfg [] w = 0"
| "expiries cfg (a # as) w = (if expires cfg a w then 1 else 0) + expiries cfg as (step cfg a w)"

text \<open>The \<^verbatim>\<open>onPhaseChange\<close> and \<^verbatim>\<open>onComplete\<close> calls of a list of callbacks, in
  order.\<close>

fun lifecycle :: "event list \<Rightarrow> event list" where
  "lifecycle [] = []"
| "lifecycle (OnPhaseChange s # es) = OnPhaseChange s # lifecycle es"
| "lifecycle (OnComplete n wd rd # es) = OnComplete n wd rd # lifecycle es"
| "lifecycle (e # es) = lifecycle es"

text \<open>The phases announced after \<open>k\<close> phase ends of an unfinished workout: the
  countdown, then work and rest in turn.\<close>

fun schedule :: "nat \<Rightarrow> status list" where
  "schedule 0 = [COUNTDOWN]"
| "schedule (Suc k) = schedule k @ [if even k then WORK else REST]"

text \<open>How many phase ends lie behind a timer, read off its phase and round.\<close>

definition progress :: "config \<Rightarrow> timer \<Rightarrow> nat" where
  "progress cfg w =
     (case phase w of
        COUNTDOWN \<Rightarrow> 0
      | WORK \<Rightarrow> 2 * nat (currentRound w) - 1
      | REST \<Rightarrow> 2 * nat (currentRound w)
      | COMPLETE \<Rightarrow> 2 * nat (rounds cfg)
      | _ \<Rightarrow> 0)"

text \<open>The invariant of a started run without reset: the timer invariant, and the
  phases announced so far are those of the schedule, closed by \<^verbatim>\<open>onComplete\<close> once
  the workout is complete.\<close>

definition run_inv :: "config \<Rightarrow> timer \<Rightarrow> bool" where
  "run_inv cfg w \<longleftrightarrow>
     timer_inv cfg w \<and> status w \<noteq> IDLE \<and>
     lifecycle (calls w) =
       (if status w = COMPLETE
        then map OnPhaseChange (schedule (progress cfg w - 1)) @
             [OnComplete (rounds cfg) (workDuration cfg) (restDuration cfg)]
        else map OnPhaseChange (schedule (progress cfg w)))"

text \<open>A run of the sample configuration: the countdown expires by itself, the first
  work phase is skipped, the rest phase is skipped while paused, and the second work
  phase is skipped after one frame.\<close>

definition fullRun :: "action list" where
  "fullRun = [Frame 0, Frame 1000, Frame 2000, Frame 3000, Skip, Pause, Skip, Frame 3016, Skip]"

section \<open>HiitHero: the settings the controller passes to the timer\<close>

text \<open>
  The application controller reads the three settings inputs, sanitises them and builds
  the configuration of the timer. A JavaScript string is a list of UTF-16 code units.
\<close>

type_synonym jsString = "nat list"

text \<open>\<^verbatim>\<open>parseInt(string, 10)\<close> of ECMAScript: leading white space and line terminators
  are dropped, then an optional sign, then the longest run of decimal digits is read;
  with no digit the result is \<^verbatim>\<open>NaN\<close>, here \<open>None\<close>. The result is an unbounded
  integer here, a double in JavaScript; the two agree after clamping to bounds that are
  small integers, since rounding to a double is monotone.\<close>

definition isWhiteSpace :: "nat \<Rightarrow> bool" where
  "isWhiteSpace c \<longleftrightarrow>
     c \<in> set [9, 10, 11, 12, 13, 32, 160, 5760, 8232, 8233, 8239, 8287, 12288, 65279]
     \<or> (8192 \<le> c \<and> c \<le> 8202)"

definition isDigit :: "nat \<Rightarrow> bool" where
  "isDigit c \<longleftrightarrow> 48 \<le> c \<and> c \<le> 57"

definition digitsValue :: "nat list \<Rightarrow> int" where
  "digitsValue ds = foldl (\<lambda>a d. 10 * a + int (d - 48)) 0 ds"

definition parseInt10 :: "jsString \<Rightarrow> int option" where
  "parseInt10 s =
     (let t = dropWhile isWhiteSpace s;
          neg = (case t of [] \<Rightarrow> False | c # r \<Rightarrow> c = 45);
          u = (case t of [] \<Rightarrow> [] | c # r \<Rightarrow> if c = 43 \<or> c = 45 then r else t);
          z = takeWhile isDigit u
      in if z = [] then None
         else Some ((if neg then - 1 else 1) * digitsValue z))"

definition clamp :: "int \<Rightarrow> int \<Rightarrow> int \<Rightarrow> int" where
  "clamp val lo hi = max lo (min hi val)"

text \<open>\<^verbatim>\<open>String(value)\<close> for an integer below \<open>10^21\<close> in magnitude: its decimal
  digits, after a minus sign when negative.\<close>

fun natToString :: "nat \<Rightarrow> jsString" where
  "natToString n = (if n < 10 then [48 + n] else natToString (n div 10) @ [48 + n mod 10])"

definition intToString :: "int \<Rightarrow> jsString" where
  "intToString i = (if i < 0 then 45 # natToString (nat (- i)) else natToString (nat i))"

declare natToString.simps [simp del]

text \<open>The code units of an ASCII string, to write inputs down.\<close>

definition units :: "string \<Rightarrow> jsString" where
  "units s = map of_char s"

text \<open>The page, as far as settings go: the \<^verbatim>\<open>value\<close> of the three inputs and the
  settings kept in local storage.\<close>

record page =
  workInput :: jsString
  restInput :: jsString
  roundsInput :: jsString
  stored :: "config option"

definition sanitizeNumericInput :: "jsString \<Rightarrow> int \<Rightarrow> int \<Rightarrow> int \<Rightarrow> int \<times> jsString" where
  "sanitizeNumericInput input lo hi fallback =
     (let parsed = (case parseInt10 input of None \<Rightarrow> fallback | Some n \<Rightarrow> n);
          val = clamp parsed lo hi
      in (val, intToString val))"

definition getSettings :: "page \<Rightarrow> config \<times> page" where
  "getSettings p =
     (let (w, wt) = sanitizeNumericInput (workInput p) 5 300 30;
          (r, rt) = sanitizeNumericInput (restInput p) 5 300 15;
          (n, nt) = sanitizeNumericInput (roundsInput p) 1 50 8
      in (\<lparr>workDuration = w, restDuration = r, rounds = n\<rparr>,
          p\<lparr>workInput := wt, restInput := rt, roundsInput := nt\<rparr>))"

text \<open>\<^verbatim>\<open>saveSettings\<close> reads the settings again and stores them. The source
  swallows a failing store; here the store succeeds.\<close>

definition saveSettings :: "page \<Rightarrow> page" where
  "saveSettings p = (let (s, p') = getSettings p in p'\<lparr>stored := Some s\<rparr>)"

text \<open>\<^verbatim>\<open>handleStart\<close>: the settings read first are the configuration given to
  \<^verbatim>\<open>createTimer\<close>; the timer is then started. The result is the page, that
  configuration and the started timer.\<close>

definition handleStart :: "page \<Rightarrow> page \<times> config \<times> timer" where
  "handleStart p =
     (let (settings, p1) = getSettings p;
          p2 = saveSettings p1;
          timer = createTimer settings
      in (p2, settings, start settings timer))"

definition page0 :: page where
  "page0 = \<lparr>workInput = units ''  42abc'', restInput = units [],
            roundsInput = units ''9999'', stored = None\<rparr>"

section \<open>Proofs\<close>

subsection \<open>The invariant holds along every run\<close>

lemma exec_Nil: "exec cfg [] w = w"
  by (simp add: exec_def)

lemma exec_snoc: "exec cfg (as @ [a]) w = step cfg a (exec cfg as w)"
  by (simp add: exec_def)

lemma exec_Cons: "exec cfg (a # as) w = exec cfg as (step cfg a w)"
  by (simp add: exec_def)

lemma inv_create: "1 \<le> rounds cfg \<Longrightarrow> timer_inv cfg (createTimer cfg)"
  by (simp add: timer_inv_def createTimer_def phase_def active_def)

lemma inv_start: "timer_inv cfg w \<Longrightarrow> timer_inv cfg (start cfg w)"
  by (auto simp: timer_inv_def start_def phase_def active_def emit_def requestAnimationFrame_def
      split: option.splits status.splits)

lemma inv_pause: "timer_inv cfg w \<Longrightarrow> timer_inv cfg (pause w)"
  by (auto simp: timer_inv_def pause_def phase_def active_def emit_def cancelPending_def Let_def
      split: option.splits status.splits)

lemma inv_resume: "timer_inv cfg w \<Longrightarrow> timer_inv cfg (resume w)"
  by (auto simp: timer_inv_def resume_def phase_def active_def emit_def requestAnimationFrame_def
      split: option.splits status.splits)

lemma inv_reset: "timer_inv cfg w \<Longrightarrow> timer_inv cfg (reset w)"
  by (auto simp: timer_inv_def reset_def phase_def active_def emit_def cancelPending_def
      split: option.splits status.splits)

lemma inv_handlePhaseEnd:
  "valid_config cfg \<Longrightarrow> phase_end_ready cfg w \<Longrightarrow> timer_inv cfg (handlePhaseEnd cfg w)"
  by (cases "status w")
     (simp_all add: phase_end_ready_def timer_inv_def handlePhaseEnd_def phase_def active_def
        emit_def requestAnimationFrame_def valid_config_def)

lemma ready_skip_active:
  "timer_inv cfg w \<Longrightarrow> active (status w) \<Longrightarrow>
   phase_end_ready cfg (cancelPending (w\<lparr>timeRemaining := 0\<rparr>))"
  by (cases "status w")
     (auto simp: phase_end_ready_def timer_inv_def phase_def active_def cancelPending_def
        split: option.splits)

lemma ready_skip_paused:
  "timer_inv cfg w \<Longrightarrow> previousStatus w = Some p \<Longrightarrow>
   phase_end_ready cfg
     (cancelPending (w\<lparr>status := p, previousStatus := None, timeRemaining := 0\<rparr>))"
  by (cases p)
     (auto simp: phase_end_ready_def timer_inv_def phase_def active_def cancelPending_def
        split: option.splits)

lemma skip_active:
  "previousStatus w = None \<Longrightarrow> active (status w) \<Longrightarrow>
   skip cfg w = handlePhaseEnd cfg (cancelPending (w\<lparr>timeRemaining := 0\<rparr>))"
  by (auto simp: skip_def active_def)

lemma skip_paused:
  "previousStatus w = Some p \<Longrightarrow> status w = PAUSED \<Longrightarrow> active p \<Longrightarrow>
   skip cfg w =
     handlePhaseEnd cfg
       (cancelPending (w\<lparr>status := p, previousStatus := None, timeRemaining := 0\<rparr>))"
  by (auto simp: skip_def active_def)

lemma skip_inactive:
  "previousStatus w = None \<Longrightarrow> \<not> active (status w) \<Longrightarrow> skip cfg w = w"
  by (auto simp: skip_def active_def)

lemma inv_paused:
  "timer_inv cfg w \<Longrightarrow> previousStatus w = Some p \<Longrightarrow> status w = PAUSED \<and> active p"
  by (simp add: timer_inv_def)

lemma inv_skip:
  assumes "valid_config cfg" "timer_inv cfg w"
  shows "timer_inv cfg (skip cfg w)"
proof (cases "previousStatus w")
  case None
  show ?thesis
  proof (cases "active (status w)")
    case True
    with None assms show ?thesis
      by (simp add: skip_active inv_handlePhaseEnd ready_skip_active)
  next
    case False
    with None assms show ?thesis by (simp add: skip_inactive)
  qed
next
  case (Some p)
  with assms(2) have "status w = PAUSED" "active p"
    by (simp_all add: inv_paused)
  with assms Some show ?thesis
    by (simp add: skip_paused inv_handlePhaseEnd ready_skip_paused)
qed

lemma ready_tick:
  "timer_inv cfg w \<Longrightarrow> frames w = h # hs \<Longrightarrow>
   phase_end_ready cfg
     (emitTick (w\<lparr>frames := hs, lastTimestamp := Some ts, timeRemaining := 0\<rparr>))"
  by (cases "status w")
     (auto simp: phase_end_ready_def timer_inv_def phase_def active_def emitTick_def emit_def
        split: option.splits if_splits)

lemma frame_expiring:
  "frames w = h # hs \<Longrightarrow> timeRemaining w - tickDelta ts w \<le> 0 \<Longrightarrow>
   frame cfg ts w =
     handlePhaseEnd cfg
       (emitTick (w\<lparr>frames := hs, lastTimestamp := Some ts, timeRemaining := 0\<rparr>))"
  by (simp add: frame_def tick_def tickDelta_def Let_def)

lemma inv_queued:
  "timer_inv cfg w \<Longrightarrow> frames w = h # hs \<Longrightarrow>
   active (status w) \<and> previousStatus w = None \<and> hs = []"
  by (auto simp: timer_inv_def active_def split: if_splits option.splits)

lemma inv_frame:
  assumes "valid_config cfg" "timer_inv cfg w"
  shows "timer_inv cfg (frame cfg ts w)"
proof (cases "frames w")
  case Nil
  then show ?thesis using assms by (simp add: frame_def)
next
  case (Cons h hs)
  show ?thesis
  proof (cases "timeRemaining w - tickDelta ts w \<le> 0")
    case True
    with assms Cons show ?thesis
      by (simp add: frame_expiring inv_handlePhaseEnd ready_tick)
  next
    case False
    from assms(2) Cons have "active (status w)" "previousStatus w = None" "hs = []"
      by (simp_all add: inv_queued)
    with assms(2) False Cons show ?thesis
      by (cases "status w")
         (simp_all add: frame_def tick_def tickDelta_def Let_def timer_inv_def active_def
            phase_def emitTick_def emit_def requestAnimationFrame_def)
  qed
qed

lemma inv_step: "valid_config cfg \<Longrightarrow> timer_inv cfg w \<Longrightarrow> timer_inv cfg (step cfg a w)"
  by (cases a) (simp_all add: inv_start inv_pause inv_resume inv_reset inv_skip inv_frame)

lemma inv_exec_from:
  "valid_config cfg \<Longrightarrow> timer_inv cfg w \<Longrightarrow> timer_inv cfg (exec cfg as w)"
  by (induction as rule: rev_induct) (simp_all add: exec_Nil exec_snoc inv_step)

lemma inv_exec: "valid_config cfg \<Longrightarrow> timer_inv cfg (exec cfg as (createTimer cfg))"
  by (rule inv_exec_from) (simp_all add: inv_create valid_config_def)

subsection \<open>Reset\<close>

lemma totalRounds_handlePhaseEnd: "totalRounds (handlePhaseEnd cfg w) = totalRounds w"
  by (simp add: handlePhaseEnd_def emit_def requestAnimationFrame_def)

lemma totalRounds_cancelPending: "totalRounds (cancelPending w) = totalRounds w"
  by (simp add: cancelPending_def split: option.splits)

lemma totalRounds_step:
  "totalRounds w = rounds cfg \<Longrightarrow> totalRounds (step cfg a w) = rounds cfg"
  by (cases a)
     (simp_all add: start_def pause_def resume_def reset_def skip_def frame_def tick_def Let_def
        emitTick_def emit_def requestAnimationFrame_def totalRounds_handlePhaseEnd
        totalRounds_cancelPending split: option.splits list.splits)

lemma totalRounds_exec: "totalRounds (exec cfg as (createTimer cfg)) = rounds cfg"
  by (induction as rule: rev_induct)
     (simp_all add: exec_Nil exec_snoc totalRounds_step createTimer_def)

text \<open>
  Claim C7. After any sequence of operations and frames on a freshly constructed timer,
  \<^verbatim>\<open>reset()\<close> leaves a timer whose \<^verbatim>\<open>getState()\<close> snapshot is the snapshot taken
  right after construction: status IDLE, current round 1, no time remaining, phase
  duration 0, and the configured number of rounds. This holds for every configuration.
\<close>

theorem reset_restores_construction_snapshot:
  "getState (reset (exec cfg as (createTimer cfg))) = getState (createTimer cfg) \<and>
   getState (createTimer cfg) =
     \<lparr>snapStatus = IDLE, snapCurrentRound = 1, snapTotalRounds = rounds cfg,
      snapTimeRemaining = 0, snapPhaseDuration = 0\<rparr>"
  using totalRounds_exec [of cfg as]
  by (simp add: getState_def reset_def emit_def createTimer_def totalRounds_cancelPending)

subsection \<open>Phase durations\<close>

text \<open>
  Claim C9. For a valid configuration, in every state reached from construction by
  operations and frames, \<^verbatim>\<open>phaseDuration\<close> is 0, 3000, the work duration in
  milliseconds or the rest duration in milliseconds, and it is 0 exactly when the
  status is IDLE; so a PAUSED or COMPLETE timer keeps the nonzero duration of its
  last phase.
\<close>

theorem phaseDuration_values:
  assumes "valid_config cfg" and "w = exec cfg as (createTimer cfg)"
  shows "phaseDuration w \<in> {0, 3000, real_of_int (workDuration cfg * 1000),
                            real_of_int (restDuration cfg * 1000)} \<and>
         (phaseDuration w = 0 \<longleftrightarrow> status w = IDLE)"
proof -
  from assms have i: "timer_inv cfg w" by (simp add: inv_exec)
  show ?thesis
  proof (cases "previousStatus w")
    case None
    with i assms(1) show ?thesis
      by (cases "status w") (simp_all add: timer_inv_def phase_def valid_config_def)
  next
    case (Some p)
    with i have "status w = PAUSED" "active p" by (simp_all add: inv_paused)
    with i Some assms(1) show ?thesis
      by (cases p) (simp_all add: timer_inv_def phase_def valid_config_def active_def)
  qed
qed

theorem phaseDuration_values_witness:
  "valid_config cfg0 \<and>
   status (exec cfg0 [Start, Frame 0, Frame 1000, Pause] (createTimer cfg0)) = PAUSED \<and>
   phaseDuration (exec cfg0 [Start, Frame 0, Frame 1000, Pause] (createTimer cfg0)) = 3000"
proof -
  have h: "valid_config cfg0" by (simp add: valid_config_def cfg0_def)
  show ?thesis
    using h phaseDuration_values [OF h refl, of "[Start, Frame 0, Frame 1000, Pause]"]
    by (simp add: cfg0_def exec_def createTimer_def start_def pause_def frame_def tick_def
        tickDelta_def emitTick_def emit_def requestAnimationFrame_def cancelPending_def
        getState_def Let_def)
qed

subsection \<open>Evaluating runs\<close>

lemmas run_defs =
  cfg0_def exec_def createTimer_def start_def pause_def resume_def reset_def skip_def
  frame_def tick_def tickDelta_def handlePhaseEnd_def emitTick_def emit_def
  requestAnimationFrame_def cancelPending_def getState_def Let_def

lemma valid_cfg0: "valid_config cfg0"
  by (simp add: valid_config_def cfg0_def)

subsection \<open>Fields across the helper functions\<close>

lemma handlePhaseEnd_currentRound:
  "currentRound (handlePhaseEnd cfg w) =
     (if status w = REST then currentRound w + 1 else currentRound w)"
  by (simp add: handlePhaseEnd_def emit_def requestAnimationFrame_def)

lemma handlePhaseEnd_status:
  "status (handlePhaseEnd cfg w) =
     (if status w = COUNTDOWN then WORK
      else if status w = WORK then (if currentRound w \<ge> totalRounds w then COMPLETE else REST)
      else if status w = REST then WORK else status w)"
  by (simp add: handlePhaseEnd_def emit_def requestAnimationFrame_def)

lemma cancelPending_fields:
  "status (cancelPending w) = status w"
  "currentRound (cancelPending w) = currentRound w"
  "timeRemaining (cancelPending w) = timeRemaining w"
  "phaseDuration (cancelPending w) = phaseDuration w"
  "previousStatus (cancelPending w) = previousStatus w"
  "calls (cancelPending w) = calls w"
  "lastTimestamp (cancelPending w) = lastTimestamp w"
  "lastDisplayedSecond (cancelPending w) = lastDisplayedSecond w"
  "nextHandle (cancelPending w) = nextHandle w"
  by (simp_all add: cancelPending_def split: option.splits)

subsection \<open>Rounds\<close>

lemma round_step:
  assumes i: "timer_inv cfg w"
  shows "currentRound (step cfg a w) =
     (if phase w = REST \<and> status (step cfg a w) = WORK then currentRound w + 1
      else if a = Reset \<or> (a = Start \<and> status w = IDLE) then 1
      else currentRound w)"
proof (cases a)
  case Start
  with i show ?thesis
    by (auto simp: start_def emit_def requestAnimationFrame_def timer_inv_def phase_def
        split: option.splits)
next
  case Pause
  with i show ?thesis
    by (auto simp: pause_def emit_def Let_def cancelPending_fields)
next
  case Resume
  with i show ?thesis
    by (auto simp: resume_def emit_def requestAnimationFrame_def timer_inv_def phase_def active_def
        split: option.splits)
next
  case Reset
  then show ?thesis by (simp add: reset_def emit_def)
next
  case Skip
  show ?thesis
  proof (cases "previousStatus w")
    case None
    show ?thesis
    proof (cases "active (status w)")
      case True
      with None Skip show ?thesis
        by (auto simp: skip_active handlePhaseEnd_currentRound handlePhaseEnd_status
            cancelPending_fields phase_def active_def)
    next
      case False
      with None Skip show ?thesis
        by (auto simp: skip_inactive phase_def active_def)
    qed
  next
    case (Some p)
    with i have "status w = PAUSED" "active p" by (simp_all add: inv_paused)
    with Some Skip show ?thesis
      by (auto simp: skip_paused handlePhaseEnd_currentRound handlePhaseEnd_status
            cancelPending_fields phase_def active_def)
  qed
next
  case (Frame ts)
  show ?thesis
  proof (cases "frames w")
    case Nil
    with i Frame show ?thesis
      by (auto simp: frame_def timer_inv_def phase_def active_def split: option.splits if_splits)
  next
    case (Cons h hs)
    with i have a: "active (status w)" "previousStatus w = None" by (simp_all add: inv_queued)
    show ?thesis
    proof (cases "timeRemaining w - tickDelta ts w \<le> 0")
      case True
      with Cons Frame a show ?thesis
        by (auto simp: frame_expiring handlePhaseEnd_currentRound handlePhaseEnd_status
            emitTick_def emit_def phase_def active_def)
    next
      case False
      with Cons Frame a show ?thesis
        by (auto simp: frame_def tick_def tickDelta_def Let_def emitTick_def emit_def
            requestAnimationFrame_def phase_def active_def)
    qed
  qed
qed

text \<open>
  Claim C5. For a valid configuration, in every state reached from construction by
  operations and frames, \<^verbatim>\<open>currentRound\<close> is at most \<^verbatim>\<open>totalRounds\<close>; and whatever
  happens next, \<^verbatim>\<open>currentRound\<close> grows by exactly 1 when the step takes a REST phase
  (running or paused) to status WORK, becomes 1 on \<^verbatim>\<open>reset()\<close> and on a \<^verbatim>\<open>start()\<close>
  from IDLE, and is unchanged by every other step.
\<close>

theorem currentRound_bounded_and_stepped:
  assumes "valid_config cfg" and "w = exec cfg as (createTimer cfg)"
  shows "currentRound w \<le> totalRounds w \<and>
         currentRound (step cfg a w) =
           (if phase w = REST \<and> status (step cfg a w) = WORK then currentRound w + 1
            else if a = Reset \<or> (a = Start \<and> status w = IDLE) then 1
            else currentRound w)"
proof -
  from assms have i: "timer_inv cfg w" by (simp add: inv_exec)
  then have "currentRound w \<le> totalRounds w" by (simp add: timer_inv_def)
  with i show ?thesis by (simp only: round_step [OF i, of a] simp_thms)
qed

theorem currentRound_bounded_and_stepped_witness:
  "valid_config cfg0 \<and>
   status (exec cfg0 [Start, Skip, Skip] (createTimer cfg0)) = REST \<and>
   currentRound (exec cfg0 [Start, Skip, Skip] (createTimer cfg0)) = 1 \<and>
   status (step cfg0 Skip (exec cfg0 [Start, Skip, Skip] (createTimer cfg0))) = WORK \<and>
   currentRound (step cfg0 Skip (exec cfg0 [Start, Skip, Skip] (createTimer cfg0))) = 2"
  using valid_cfg0
    currentRound_bounded_and_stepped [OF valid_cfg0 refl, of "[Start, Skip, Skip]" Skip]
  by (simp add: run_defs phase_def)

subsection \<open>Pause and resume\<close>

lemma resume_pause:
  assumes "active (status w)" and "previousStatus w = None"
  shows "resume (pause w) =
     requestAnimationFrame
       (emit (OnStateChange (status w))
         (emit (OnStateChange PAUSED) ((cancelPending w)\<lparr>lastTimestamp := None\<rparr>)))"
  using assms
  by (auto simp: resume_def pause_def Let_def emit_def active_def cancelPending_fields
        requestAnimationFrame_def cancelPending_def split: option.splits)

text \<open>
  Claim C6. For a valid configuration and every state reached from construction whose
  status is COUNTDOWN, WORK or REST, \<^verbatim>\<open>pause()\<close> followed by \<^verbatim>\<open>resume()\<close> leaves
  \<^verbatim>\<open>timeRemaining\<close>, \<^verbatim>\<open>phaseDuration\<close> and the status as they were. The next frame,
  at whatever timestamp \<open>ts\<close> the host presents it, runs a tick (the last timestamp
  becomes \<open>ts\<close>) that charges nothing: the three fields are still as before the pause.
\<close>

theorem pause_resume_keeps_time:
  assumes "valid_config cfg" and "w = exec cfg as (createTimer cfg)"
    and "status w = COUNTDOWN \<or> status w = WORK \<or> status w = REST"
  shows "timeRemaining (resume (pause w)) = timeRemaining w \<and>
         phaseDuration (resume (pause w)) = phaseDuration w \<and>
         status (resume (pause w)) = status w \<and>
         lastTimestamp (frame cfg ts (resume (pause w))) = Some ts \<and>
         timeRemaining (frame cfg ts (resume (pause w))) = timeRemaining w \<and>
         phaseDuration (frame cfg ts (resume (pause w))) = phaseDuration w \<and>
         status (frame cfg ts (resume (pause w))) = status w"
proof -
  from assms have i: "timer_inv cfg w" by (simp add: inv_exec)
  from assms(3) have a: "active (status w)" by (simp add: active_def)
  with i have p: "0 < timeRemaining w"
    by (cases "status w") (auto simp: timer_inv_def phase_def active_def split: option.splits)
  from i a obtain h where h: "frames w = [h]" "rafId w = Some h" "h \<noteq> 0"
    by (auto simp: timer_inv_def split: option.splits)
  from i a have n: "previousStatus w = None"
    by (cases "previousStatus w") (auto simp: timer_inv_def active_def)
  let ?v = "resume (pause w)"
  have v: "frames ?v = [nextHandle w]" "lastTimestamp ?v = None"
    "timeRemaining ?v = timeRemaining w" "phaseDuration ?v = phaseDuration w"
    "status ?v = status w"
    using a h n
    by (simp_all add: resume_pause requestAnimationFrame_def emit_def cancelPending_def)
  have d: "tickDelta ts (?v\<lparr>frames := []\<rparr>) = 0"
    using v by (simp add: tickDelta_def)
  have "frame cfg ts ?v = tick cfg ts (?v\<lparr>frames := []\<rparr>)"
    using v by (simp add: frame_def)
  with d p v show ?thesis
    by (simp add: tick_def Let_def emitTick_def emit_def requestAnimationFrame_def)
qed

theorem pause_resume_keeps_time_witness:
  "valid_config cfg0 \<and>
   status (exec cfg0 [Start, Frame 0, Frame 400] (createTimer cfg0)) = COUNTDOWN \<and>
   timeRemaining (exec cfg0 [Start, Frame 0, Frame 400] (createTimer cfg0)) = 2600 \<and>
   timeRemaining (frame cfg0 99999
      (resume (pause (exec cfg0 [Start, Frame 0, Frame 400] (createTimer cfg0))))) = 2600"
  using valid_cfg0
    pause_resume_keeps_time [OF valid_cfg0 refl, of "[Start, Frame 0, Frame 400]" 99999]
  by (simp add: run_defs)

subsection \<open>The clamp of a tick's delta\<close>

text \<open>
  Claim C8. For a valid configuration, a tick at a timestamp more than 1000 ms after
  the previous one charges exactly 1000 ms: \<^verbatim>\<open>timeRemaining\<close> goes down by at most
  1000 in that tick, and by exactly 1000 when more than 1000 ms remained.
\<close>

theorem tick_delta_clamped:
  assumes "valid_config cfg" and "lastTimestamp w = Some l" and "ts - l > 1000"
  shows "tickDelta ts w = 1000 \<and>
         timeRemaining w - timeRemaining (tick cfg ts w) \<le> 1000 \<and>
         (1000 < timeRemaining w \<longrightarrow> timeRemaining (tick cfg ts w) = timeRemaining w - 1000)"
proof -
  from assms have d: "tickDelta ts w = 1000" by (simp add: tickDelta_def)
  show ?thesis
  proof (cases "timeRemaining w - 1000 \<le> 0")
    case True
    have "0 \<le> timeRemaining (handlePhaseEnd cfg v)" if "timeRemaining v = 0" for v
      using that assms(1)
      by (simp add: handlePhaseEnd_def emit_def requestAnimationFrame_def valid_config_def)
    then have "0 \<le> timeRemaining (tick cfg ts w)"
      using True d by (simp add: tick_def Let_def emitTick_def emit_def)
    with True d show ?thesis by simp
  next
    case False
    with d show ?thesis
      by (simp add: tick_def Let_def emitTick_def emit_def requestAnimationFrame_def)
  qed
qed

theorem tick_delta_clamped_witness:
  "valid_config cfg0 \<and>
   lastTimestamp (exec cfg0 [Start, Frame 0] (createTimer cfg0)) = Some 0 \<and>
   (5000::real) - 0 > 1000 \<and>
   timeRemaining (exec cfg0 [Start, Frame 0] (createTimer cfg0)) = 3000 \<and>
   timeRemaining (tick cfg0 5000 (exec cfg0 [Start, Frame 0] (createTimer cfg0))) = 2000"
proof -
  have l: "lastTimestamp (exec cfg0 [Start, Frame 0] (createTimer cfg0)) = Some 0"
    by (simp add: run_defs)
  have g: "(5000::real) - 0 > 1000" by simp
  show ?thesis
    using valid_cfg0 l g tick_delta_clamped [OF valid_cfg0 l g]
    by (simp add: run_defs)
qed

subsection \<open>Skip and natural expiry\<close>

lemma handlePhaseEnd_calls:
  "calls (handlePhaseEnd cfg w) = calls w @ phaseEndCalls cfg w"
  by (simp add: handlePhaseEnd_def phaseEndCalls_def emit_def requestAnimationFrame_def)

lemma emitted_append: "calls w' = calls w @ xs \<Longrightarrow> emitted w w' = xs"
  by (simp add: emitted_def)

lemma getState_handlePhaseEnd:
  "getState w = getState v \<Longrightarrow>
   getState (handlePhaseEnd cfg w) = getState (handlePhaseEnd cfg v)"
  by (simp add: getState_def handlePhaseEnd_def emit_def requestAnimationFrame_def)

lemma phaseEndCalls_cong:
  "getState w = getState v \<Longrightarrow> phaseEndCalls cfg w = phaseEndCalls cfg v"
  by (simp add: getState_def phaseEndCalls_def)

lemma skip_running:
  "active (status w) \<Longrightarrow>
   skip cfg w = handlePhaseEnd cfg (cancelPending (w\<lparr>timeRemaining := 0\<rparr>))"
  by (auto simp: skip_def active_def split: option.splits)

lemma getState_cancelPending: "getState (cancelPending w) = getState w"
  by (simp add: getState_def cancelPending_fields totalRounds_cancelPending)

text \<open>
  Claim C3, as stated: \<^verbatim>\<open>skip()\<close> and a tick that brings \<^verbatim>\<open>timeRemaining\<close> to 0
  leave the same state and make the same callbacks, the final \<^verbatim>\<open>onTick\<close> with no
  time remaining included. This fails: with 1000 ms of countdown left, the expiring
  tick calls \<^verbatim>\<open>onTick\<close>, \<^verbatim>\<open>onPhaseChange(WORK)\<close>, \<^verbatim>\<open>onSound('start')\<close>, while
  \<^verbatim>\<open>skip()\<close> calls only the last two. The snapshots agree.
\<close>

theorem skip_emits_no_final_tick_counterexample:
  "status run3 = COUNTDOWN \<and> timeRemaining run3 - tickDelta 3000 run3 \<le> 0 \<and>
   getState (skip cfg0 run3) = getState (frame cfg0 3000 run3) \<and>
   emitted run3 (skip cfg0 run3) = [OnPhaseChange WORK, OnSound CueStart] \<and>
   emitted run3 (frame cfg0 3000 run3) =
     [OnTick \<lparr>snapStatus = COUNTDOWN, snapCurrentRound = 1, snapTotalRounds = 2,
              snapTimeRemaining = 0, snapPhaseDuration = 3000\<rparr>,
      OnPhaseChange WORK, OnSound CueStart] \<and>
   emitted run3 (skip cfg0 run3) \<noteq> emitted run3 (frame cfg0 3000 run3)"
  by (simp add: run3_def run_defs emitted_def)

text \<open>Frames that do not end the phase leave status, rounds and phase duration alone,
  and from every active state some run of such frames leads to a tick that ends it.\<close>

lemma frame_running_snapshot:
  assumes "frames w = h # hs" and "\<not> timeRemaining w - tickDelta ts w \<le> 0"
  shows "status (frame cfg ts w) = status w"
    and "currentRound (frame cfg ts w) = currentRound w"
    and "totalRounds (frame cfg ts w) = totalRounds w"
    and "phaseDuration (frame cfg ts w) = phaseDuration w"
    and "timeRemaining (frame cfg ts w) = timeRemaining w - tickDelta ts w"
    and "lastTimestamp (frame cfg ts w) = Some ts"
  using assms
  by (simp_all add: frame_def tick_def tickDelta_def Let_def emitTick_def emit_def
        requestAnimationFrame_def)

lemma inv_active_queued:
  "timer_inv cfg w \<Longrightarrow> active (status w) \<Longrightarrow> \<exists>h. frames w = [h]"
  by (auto simp: timer_inv_def split: option.splits)

lemma quiet_frames:
  "valid_config cfg \<Longrightarrow> timer_inv cfg w \<Longrightarrow> active (status w) \<Longrightarrow>
   expiries cfg (map Frame tss) w = 0 \<Longrightarrow>
   timer_inv cfg (exec cfg (map Frame tss) w) \<and>
   status (exec cfg (map Frame tss) w) = status w \<and>
   currentRound (exec cfg (map Frame tss) w) = currentRound w \<and>
   totalRounds (exec cfg (map Frame tss) w) = totalRounds w \<and>
   phaseDuration (exec cfg (map Frame tss) w) = phaseDuration w"
proof (induction tss arbitrary: w)
  case Nil
  then show ?case by (simp add: exec_Nil)
next
  case (Cons t tss)
  from Cons.prems(2,3) obtain h where h: "frames w = [h]"
    using inv_active_queued by blast
  from Cons.prems(4) have ne: "\<not> expires cfg (Frame t) w"
    and rest: "expiries cfg (map Frame tss) (frame cfg t w) = 0"
    by (simp_all split: if_splits)
  from ne h Cons.prems(3) have q: "\<not> timeRemaining w - tickDelta t w \<le> 0"
    by (simp add: expires_def)
  note f = frame_running_snapshot [OF h q, of cfg]
  have i: "timer_inv cfg (frame cfg t w)"
    using Cons.prems(1,2) by (rule inv_frame)
  have a: "active (status (frame cfg t w))" using f(1) Cons.prems(3) by simp
  from Cons.IH [OF Cons.prems(1) i a rest] f show ?case
    by (simp add: exec_Cons)
qed

lemma expiry_within:
  "valid_config cfg \<Longrightarrow> timer_inv cfg w \<Longrightarrow> active (status w) \<Longrightarrow>
   lastTimestamp w = Some l \<Longrightarrow> timeRemaining w \<le> 1000 * real k \<Longrightarrow>
   \<exists>tss ts. expiries cfg (map Frame tss) w = 0 \<and>
     timeRemaining (exec cfg (map Frame tss) w)
       - tickDelta ts (exec cfg (map Frame tss) w) \<le> 0"
proof (induction k arbitrary: w l)
  case 0
  have "expiries cfg (map Frame []) w = 0" by simp
  moreover have "timeRemaining (exec cfg (map Frame []) w)
      - tickDelta (l + 1000) (exec cfg (map Frame []) w) \<le> 0"
    using "0.prems"(4,5) by (simp add: exec_Nil tickDelta_def)
  ultimately show ?case by blast
next
  case (Suc k)
  show ?case
  proof (cases "timeRemaining w \<le> 1000")
    case True
    have "expiries cfg (map Frame []) w = 0" by simp
    moreover have "timeRemaining (exec cfg (map Frame []) w)
        - tickDelta (l + 1000) (exec cfg (map Frame []) w) \<le> 0"
      using Suc.prems(4) True by (simp add: exec_Nil tickDelta_def)
    ultimately show ?thesis by blast
  next
    case False
    from Suc.prems(2,3) obtain h where h: "frames w = [h]"
      using inv_active_queued by blast
    have d: "tickDelta (l + 1000) w = 1000"
      using Suc.prems(4) by (simp add: tickDelta_def)
    with False have q: "\<not> timeRemaining w - tickDelta (l + 1000) w \<le> 0" by simp
    note f = frame_running_snapshot [OF h q, of cfg]
    let ?w1 = "frame cfg (l + 1000) w"
    have i: "timer_inv cfg ?w1" using Suc.prems(1,2) by (rule inv_frame)
    have a: "active (status ?w1)" using f(1) Suc.prems(3) by simp
    have t: "timeRemaining ?w1 \<le> 1000 * real k"
      using f(5) d Suc.prems(5) by simp
    from Suc.IH [OF Suc.prems(1) i a f(6) t] obtain tss ts where
      r: "expiries cfg (map Frame tss) ?w1 = 0"
         "timeRemaining (exec cfg (map Frame tss) ?w1)
            - tickDelta ts (exec cfg (map Frame tss) ?w1) \<le> 0"
      by blast
    have "expiries cfg (map Frame ((l + 1000) # tss)) w = 0"
      using r(1) q h Suc.prems(3) by (simp add: expires_def)
    moreover have "timeRemaining (exec cfg (map Frame ((l + 1000) # tss)) w)
        - tickDelta ts (exec cfg (map Frame ((l + 1000) # tss)) w) \<le> 0"
      using r(2) by (simp add: exec_Cons)
    ultimately show ?thesis by blast
  qed
qed

lemma natural_expiry_exists:
  assumes v: "valid_config cfg" and i: "timer_inv cfg w" and a: "active (status w)"
  shows "\<exists>tss ts. expiries cfg (map Frame tss) w = 0 \<and>
     timeRemaining (exec cfg (map Frame tss) w)
       - tickDelta ts (exec cfg (map Frame tss) w) \<le> 0"
proof -
  obtain k :: nat where k: "timeRemaining w \<le> 1000 * real k"
  proof -
    have "timeRemaining w \<le> 1000 * real (nat \<lceil>timeRemaining w\<rceil>)"
    proof (cases "0 \<le> timeRemaining w")
      case True
      then have "timeRemaining w \<le> real (nat \<lceil>timeRemaining w\<rceil>)"
        by (simp add: real_nat_ceiling_ge)
      then show ?thesis by linarith
    next
      case False
      then show ?thesis by (simp add: order.trans [of _ 0])
    qed
    then show ?thesis using that by blast
  qed
  show ?thesis
  proof (cases "lastTimestamp w")
    case (Some l)
    from expiry_within [OF v i a Some k] show ?thesis .
  next
    case None
    from i a obtain h where h: "frames w = [h]" using inv_active_queued by blast
    from i a have p: "0 < timeRemaining w"
      by (cases "status w") (auto simp: timer_inv_def phase_def active_def split: option.splits)
    have d: "tickDelta 0 w = 0" using None by (simp add: tickDelta_def)
    with p have q: "\<not> timeRemaining w - tickDelta 0 w \<le> 0" by simp
    note f = frame_running_snapshot [OF h q, of cfg]
    let ?w1 = "frame cfg 0 w"
    have i1: "timer_inv cfg ?w1" using v i by (rule inv_frame)
    have a1: "active (status ?w1)" using f(1) a by simp
    have t: "timeRemaining ?w1 \<le> 1000 * real k" using f(5) d k by simp
    from expiry_within [OF v i1 a1 f(6) t] obtain tss ts where
      r: "expiries cfg (map Frame tss) ?w1 = 0"
         "timeRemaining (exec cfg (map Frame tss) ?w1)
            - tickDelta ts (exec cfg (map Frame tss) ?w1) \<le> 0"
      by blast
    have "expiries cfg (map Frame (0 # tss)) w = 0"
      using r(1) q h a by (simp add: expires_def)
    moreover have "timeRemaining (exec cfg (map Frame (0 # tss)) w)
        - tickDelta ts (exec cfg (map Frame (0 # tss)) w) \<le> 0"
      using r(2) by (simp add: exec_Cons)
    ultimately show ?thesis by blast
  qed
qed

lemma ticks_phaseEndCalls: "ticks (phaseEndCalls cfg u) = []"
  by (simp add: phaseEndCalls_def)

text \<open>
  Claim C3, amended. For a valid configuration and every state reached from
  construction with status COUNTDOWN, WORK or REST: \<^verbatim>\<open>skip()\<close> sets
  \<^verbatim>\<open>timeRemaining\<close> to 0 and runs the phase-end transition, so its snapshot and its
  callbacks are those of \<^verbatim>\<open>handlePhaseEnd\<close> on the state with no time remaining;
  it makes at least one callback and never calls \<^verbatim>\<open>onTick\<close>. The phase can also
  end naturally: some frames that do not end it followed by a tick that does. Whenever
  it does, after any frames that do not end it, the expiring tick leaves the same
  \<^verbatim>\<open>getState()\<close> snapshot as \<^verbatim>\<open>skip()\<close> would have, and its callbacks are one
  \<^verbatim>\<open>onTick\<close> (no time remaining, the old phase) followed by exactly the callbacks of
  \<^verbatim>\<open>skip()\<close>.
\<close>

theorem skip_matches_natural_expiry:
  assumes "valid_config cfg" and "w = exec cfg as (createTimer cfg)"
    and "status w = COUNTDOWN \<or> status w = WORK \<or> status w = REST"
  shows "getState (skip cfg w) = getState (handlePhaseEnd cfg (w\<lparr>timeRemaining := 0\<rparr>)) \<and>
         emitted w (skip cfg w) = emitted w (handlePhaseEnd cfg (w\<lparr>timeRemaining := 0\<rparr>)) \<and>
         emitted w (skip cfg w) \<noteq> [] \<and>
         ticks (emitted w (skip cfg w)) = [] \<and>
         (\<exists>tss ts. expiries cfg (map Frame tss) w = 0 \<and>
            timeRemaining (exec cfg (map Frame tss) w)
              - tickDelta ts (exec cfg (map Frame tss) w) \<le> 0) \<and>
         (expiries cfg (map Frame tss) w = 0 \<and>
          timeRemaining (exec cfg (map Frame tss) w)
            - tickDelta ts (exec cfg (map Frame tss) w) \<le> 0 \<longrightarrow>
          getState (frame cfg ts (exec cfg (map Frame tss) w)) = getState (skip cfg w) \<and>
          emitted (exec cfg (map Frame tss) w) (frame cfg ts (exec cfg (map Frame tss) w)) =
            OnTick ((getState w)\<lparr>snapTimeRemaining := 0\<rparr>) # emitted w (skip cfg w))"
proof -
  from assms have i: "timer_inv cfg w" by (simp add: inv_exec)
  from assms(3) have a: "active (status w)" by (simp add: active_def)
  let ?z = "w\<lparr>timeRemaining := 0\<rparr>"
  let ?s = "cancelPending ?z"
  have sk: "skip cfg w = handlePhaseEnd cfg ?s" using a by (rule skip_running)
  have gz: "getState ?s = getState ?z" by (rule getState_cancelPending)
  have e1: "emitted w (skip cfg w) = phaseEndCalls cfg ?z"
    by (rule emitted_append)
       (simp add: sk handlePhaseEnd_calls cancelPending_fields phaseEndCalls_cong [OF gz])
  have e0: "emitted w (handlePhaseEnd cfg ?z) = phaseEndCalls cfg ?z"
    by (rule emitted_append) (simp add: handlePhaseEnd_calls)
  have c1: "getState (skip cfg w) = getState (handlePhaseEnd cfg ?z)"
    by (simp add: sk getState_handlePhaseEnd [OF gz])
  have c2: "emitted w (skip cfg w) = emitted w (handlePhaseEnd cfg ?z)"
    by (simp only: e1 e0)
  have c3: "emitted w (skip cfg w) \<noteq> []"
    using a by (auto simp: e1 phaseEndCalls_def active_def)
  have c4: "ticks (emitted w (skip cfg w)) = []"
    by (simp only: e1 ticks_phaseEndCalls)
  have c5: "\<exists>tss ts. expiries cfg (map Frame tss) w = 0 \<and>
            timeRemaining (exec cfg (map Frame tss) w)
              - tickDelta ts (exec cfg (map Frame tss) w) \<le> 0"
    using assms(1) i a by (rule natural_expiry_exists)
  have c6: "getState (frame cfg ts (exec cfg (map Frame tss) w)) = getState (skip cfg w) \<and>
          emitted (exec cfg (map Frame tss) w) (frame cfg ts (exec cfg (map Frame tss) w)) =
            OnTick ((getState w)\<lparr>snapTimeRemaining := 0\<rparr>) # emitted w (skip cfg w)"
    if q: "expiries cfg (map Frame tss) w = 0"
      and x: "timeRemaining (exec cfg (map Frame tss) w)
            - tickDelta ts (exec cfg (map Frame tss) w) \<le> 0"
  proof -
    let ?w' = "exec cfg (map Frame tss) w"
    from quiet_frames [OF assms(1) i a q]
    have k: "timer_inv cfg ?w'" "status ?w' = status w" "currentRound ?w' = currentRound w"
      "totalRounds ?w' = totalRounds w" "phaseDuration ?w' = phaseDuration w"
      by simp_all
    from k(1,2) a obtain h where h: "frames ?w' = [h]"
      using inv_active_queued [of cfg ?w'] by auto
    let ?t = "emitTick (?w'\<lparr>frames := [], lastTimestamp := Some ts, timeRemaining := 0\<rparr>)"
    have fr: "frame cfg ts ?w' = handlePhaseEnd cfg ?t"
      using h x by (simp add: frame_expiring)
    have g: "getState ?t = getState ?z"
      using k by (simp add: getState_def emitTick_def emit_def)
    have ct: "calls ?t = calls ?w' @ [OnTick ((getState w)\<lparr>snapTimeRemaining := 0\<rparr>)]"
      using k by (simp add: emitTick_def emit_def getState_def)
    have e2: "emitted ?w' (frame cfg ts ?w') =
        OnTick ((getState w)\<lparr>snapTimeRemaining := 0\<rparr>) # phaseEndCalls cfg ?t"
      by (rule emitted_append) (simp add: fr handlePhaseEnd_calls ct)
    have "getState (frame cfg ts ?w') = getState (skip cfg w)"
      by (simp only: fr c1 getState_handlePhaseEnd [OF g])
    moreover have "emitted ?w' (frame cfg ts ?w') =
        OnTick ((getState w)\<lparr>snapTimeRemaining := 0\<rparr>) # emitted w (skip cfg w)"
      by (simp only: e1 e2 phaseEndCalls_cong [OF g])
    ultimately show ?thesis by simp
  qed
  from c1 c2 c3 c4 c5 c6 show ?thesis by blast
qed

theorem skip_matches_natural_expiry_witness:
  "valid_config cfg0 \<and> status started = COUNTDOWN \<and> timeRemaining started = 3000 \<and>
   expiries cfg0 (map Frame [0, 1000, 2000]) started = 0 \<and>
   timeRemaining (exec cfg0 (map Frame [0, 1000, 2000]) started)
     - tickDelta 3000 (exec cfg0 (map Frame [0, 1000, 2000]) started) \<le> 0 \<and>
   getState (skip cfg0 started) =
     \<lparr>snapStatus = WORK, snapCurrentRound = 1, snapTotalRounds = 2,
      snapTimeRemaining = 30000, snapPhaseDuration = 30000\<rparr> \<and>
   getState (frame cfg0 3000 (exec cfg0 (map Frame [0, 1000, 2000]) started)) =
     getState (skip cfg0 started) \<and>
   emitted started (skip cfg0 started) = [OnPhaseChange WORK, OnSound CueStart] \<and>
   emitted (exec cfg0 (map Frame [0, 1000, 2000]) started)
       (frame cfg0 3000 (exec cfg0 (map Frame [0, 1000, 2000]) started)) =
     OnTick ((getState started)\<lparr>snapTimeRemaining := 0\<rparr>) # emitted started (skip cfg0 started)"
proof -
  have s: "status started = COUNTDOWN \<or> status started = WORK \<or> status started = REST"
    by (simp add: started_def run_defs)
  have q: "expiries cfg0 (map Frame [0, 1000, 2000]) started = 0"
    by (simp add: started_def run_defs expires_def active_def)
  have x: "timeRemaining (exec cfg0 (map Frame [0, 1000, 2000]) started)
     - tickDelta 3000 (exec cfg0 (map Frame [0, 1000, 2000]) started) \<le> 0"
    by (simp add: started_def run_defs)
  have g: "getState (skip cfg0 started) =
     \<lparr>snapStatus = WORK, snapCurrentRound = 1, snapTotalRounds = 2,
      snapTimeRemaining = 30000, snapPhaseDuration = 30000\<rparr>"
    "emitted started (skip cfg0 started) = [OnPhaseChange WORK, OnSound CueStart]"
    "status started = COUNTDOWN" "timeRemaining started = 3000"
    by (simp_all add: started_def run_defs emitted_def)
  show ?thesis
    using valid_cfg0 q x g
      skip_matches_natural_expiry [OF valid_cfg0 started_def s, of "[0, 1000, 2000]" 3000]
    by simp
qed

subsection \<open>Skip while paused\<close>

lemma resume_calls:
  "previousStatus w = Some p \<Longrightarrow> status w = PAUSED \<Longrightarrow>
   resume w = requestAnimationFrame (emit (OnStateChange p)
                (w\<lparr>status := p, previousStatus := None, lastTimestamp := None\<rparr>))"
  by (simp add: resume_def)

text \<open>
  Claim C4, as stated: from a paused timer, \<^verbatim>\<open>skip()\<close> and \<^verbatim>\<open>resume()\<close> followed
  by \<^verbatim>\<open>skip()\<close> give the same state and the same callbacks. This fails: the second
  path first calls \<^verbatim>\<open>onStateChange\<close> with the interrupted status, and it clears
  \<^verbatim>\<open>lastTimestamp\<close>, which the first path leaves as it was before the pause.
\<close>

theorem skip_paused_vs_resume_skip_counterexample:
  "status paused1 = PAUSED \<and> previousStatus paused1 = Some COUNTDOWN \<and>
   emitted paused1 (skip cfg0 paused1) = [OnPhaseChange WORK, OnSound CueStart] \<and>
   emitted paused1 (skip cfg0 (resume paused1)) =
     [OnStateChange COUNTDOWN, OnPhaseChange WORK, OnSound CueStart] \<and>
   lastTimestamp (skip cfg0 paused1) = Some 1000 \<and>
   lastTimestamp (skip cfg0 (resume paused1)) = None \<and>
   skip cfg0 paused1 \<noteq> skip cfg0 (resume paused1)"
proof -
  have l: "lastTimestamp (skip cfg0 paused1) = Some 1000"
    "lastTimestamp (skip cfg0 (resume paused1)) = None"
    by (simp_all add: paused1_def run_defs)
  then have "skip cfg0 paused1 \<noteq> skip cfg0 (resume paused1)" by auto
  with l show ?thesis by (simp add: paused1_def run_defs emitted_def)
qed

text \<open>What the stale \<^verbatim>\<open>lastTimestamp\<close> does: a frame 59 s after the last tick before
  the pause charges 1000 ms to the new work phase on the first path, nothing on the
  second.\<close>

lemma skip_paused_stale_timestamp_example:
  "timeRemaining (frame cfg0 60000 (skip cfg0 paused1)) = 29000 \<and>
   timeRemaining (frame cfg0 60000 (skip cfg0 (resume paused1))) = 30000"
  by (simp add: paused1_def run_defs)

text \<open>
  Claim C4, amended. For a valid configuration and every state reached from
  construction with status PAUSED and previous status \<open>p\<close>: \<^verbatim>\<open>skip()\<close> and
  \<^verbatim>\<open>resume()\<close> followed by \<^verbatim>\<open>skip()\<close> leave the same \<^verbatim>\<open>getState()\<close> snapshot and
  the same \<^verbatim>\<open>previousStatus\<close>, and the callbacks of the second path are
  \<^verbatim>\<open>onStateChange(p)\<close> followed by exactly the callbacks of the first.
\<close>

theorem skip_paused_matches_resume_skip:
  assumes "valid_config cfg" and "w = exec cfg as (createTimer cfg)"
    and "status w = PAUSED" and "previousStatus w = Some p"
  shows "getState (skip cfg w) = getState (skip cfg (resume w)) \<and>
         previousStatus (skip cfg w) = previousStatus (skip cfg (resume w)) \<and>
         emitted w (skip cfg (resume w)) = OnStateChange p # emitted w (skip cfg w)"
proof -
  from assms have i: "timer_inv cfg w" by (simp add: inv_exec)
  with assms(4) have a: "active p" by (simp add: inv_paused)
  let ?r = "resume w"
  let ?s = "cancelPending (w\<lparr>status := p, previousStatus := None, timeRemaining := 0\<rparr>)"
  let ?t = "cancelPending (?r\<lparr>timeRemaining := 0\<rparr>)"
  have r: "status ?r = p" "previousStatus ?r = None"
    "calls ?r = calls w @ [OnStateChange p]"
    "currentRound ?r = currentRound w" "totalRounds ?r = totalRounds w"
    "phaseDuration ?r = phaseDuration w"
    using assms(3,4) by (simp_all add: resume_calls requestAnimationFrame_def emit_def)
  have sk: "skip cfg w = handlePhaseEnd cfg ?s"
    using assms(3,4) a by (simp add: skip_paused)
  have rs: "skip cfg ?r = handlePhaseEnd cfg ?t"
    using a r by (simp add: skip_running)
  have g: "getState ?s = getState ?t"
    using r by (simp add: getState_cancelPending) (simp add: getState_def)
  have p1: "previousStatus (handlePhaseEnd cfg v) = previousStatus v" for v
    by (simp add: handlePhaseEnd_def emit_def requestAnimationFrame_def)
  have e1: "emitted w (skip cfg w) = phaseEndCalls cfg ?s"
    by (rule emitted_append) (simp add: sk handlePhaseEnd_calls cancelPending_fields)
  have e2: "emitted w (skip cfg ?r) = OnStateChange p # phaseEndCalls cfg ?t"
    by (rule emitted_append) (simp add: rs handlePhaseEnd_calls cancelPending_fields r)
  have "getState (skip cfg w) = getState (skip cfg ?r)"
    by (simp add: sk rs getState_handlePhaseEnd [OF g])
  moreover have "previousStatus (skip cfg w) = previousStatus (skip cfg ?r)"
    using r by (simp add: sk rs p1 cancelPending_fields)
  moreover have "emitted w (skip cfg ?r) = OnStateChange p # emitted w (skip cfg w)"
    by (simp only: e1 e2 phaseEndCalls_cong [OF g])
  ultimately show ?thesis by simp
qed

theorem skip_paused_matches_resume_skip_witness:
  "valid_config cfg0 \<and> status paused1 = PAUSED \<and> previousStatus paused1 = Some COUNTDOWN \<and>
   status (skip cfg0 paused1) = WORK \<and>
   getState (skip cfg0 paused1) = getState (skip cfg0 (resume paused1)) \<and>
   emitted paused1 (skip cfg0 (resume paused1)) =
     OnStateChange COUNTDOWN # emitted paused1 (skip cfg0 paused1)"
proof -
  have s: "status paused1 = PAUSED" and p: "previousStatus paused1 = Some COUNTDOWN"
    by (simp_all add: paused1_def run_defs)
  show ?thesis
    using valid_cfg0 s p skip_paused_matches_resume_skip [OF valid_cfg0 paused1_def s p]
    by (simp add: paused1_def run_defs)
qed

subsection \<open>State-change notifications\<close>

text \<open>
  Claim C2, as stated: every change of \<^verbatim>\<open>status\<close> calls \<^verbatim>\<open>onStateChange\<close> exactly
  once with the new status. This fails at a phase end: skipping the countdown moves
  the status from COUNTDOWN to WORK and calls \<^verbatim>\<open>onPhaseChange\<close> and \<^verbatim>\<open>onSound\<close>
  only.
\<close>

theorem phase_end_without_state_change_counterexample:
  "status started = COUNTDOWN \<and> status (step cfg0 Skip started) = WORK \<and>
   emitted started (step cfg0 Skip started) = [OnPhaseChange WORK, OnSound CueStart] \<and>
   stateChanges (emitted started (step cfg0 Skip started)) \<noteq> [WORK]"
  by (simp add: started_def run_defs emitted_def)

lemma frame_running_status:
  "frames w = h # hs \<Longrightarrow> \<not> timeRemaining w - tickDelta ts w \<le> 0 \<Longrightarrow>
   status (frame cfg ts w) = status w"
  by (simp add: frame_def tick_def tickDelta_def Let_def emitTick_def emit_def
        requestAnimationFrame_def)

lemma status_change_calls:
  assumes i: "timer_inv cfg w" and c: "status (step cfg a w) \<noteq> status w"
  shows "if (status (step cfg a w) = WORK \<or> status (step cfg a w) = REST) \<and> a \<noteq> Resume
         then stateChanges (emitted w (step cfg a w)) = [] \<and>
              phaseChanges (emitted w (step cfg a w)) = [status (step cfg a w)]
         else stateChanges (emitted w (step cfg a w)) = [status (step cfg a w)]"
proof (cases a)
  case Start
  with c show ?thesis
    by (auto simp: start_def emit_def requestAnimationFrame_def emitted_def
        split: if_splits)
next
  case Pause
  with c show ?thesis
    by (auto simp: pause_def emit_def Let_def cancelPending_fields emitted_def
        split: if_splits)
next
  case Resume
  with c show ?thesis
    by (auto simp: resume_def emit_def requestAnimationFrame_def emitted_def
        split: option.splits if_splits)
next
  case Reset
  with c show ?thesis
    by (auto simp: reset_def emit_def cancelPending_fields emitted_def)
next
  case Skip
  show ?thesis
  proof (cases "previousStatus w")
    case None
    show ?thesis
    proof (cases "active (status w)")
      case True
      let ?s = "cancelPending (w\<lparr>timeRemaining := 0\<rparr>)"
      have sk: "skip cfg w = handlePhaseEnd cfg ?s" using True by (rule skip_running)
      have e: "emitted w (skip cfg w) = phaseEndCalls cfg ?s"
        by (rule emitted_append) (simp add: sk handlePhaseEnd_calls cancelPending_fields)
      from True Skip show ?thesis
        by (simp add: e) 
           (auto simp: sk handlePhaseEnd_status phaseEndCalls_def cancelPending_fields
              totalRounds_cancelPending active_def)
    next
      case False
      with None Skip c show ?thesis by (simp add: skip_inactive)
    qed
  next
    case (Some p)
    with i have ps: "status w = PAUSED" "active p" by (simp_all add: inv_paused)
    let ?s = "cancelPending (w\<lparr>status := p, previousStatus := None, timeRemaining := 0\<rparr>)"
    have sk: "skip cfg w = handlePhaseEnd cfg ?s" using Some ps by (simp add: skip_paused)
    have e: "emitted w (skip cfg w) = phaseEndCalls cfg ?s"
      by (rule emitted_append) (simp add: sk handlePhaseEnd_calls cancelPending_fields)
    from ps Skip show ?thesis
      by (simp add: e) 
         (auto simp: sk handlePhaseEnd_status phaseEndCalls_def cancelPending_fields
            totalRounds_cancelPending active_def)
  qed
next
  case (Frame ts)
  show ?thesis
  proof (cases "frames w")
    case Nil
    with Frame c show ?thesis by (simp add: frame_def)
  next
    case (Cons h hs)
    with i have a: "active (status w)" "previousStatus w = None" by (simp_all add: inv_queued)
    show ?thesis
    proof (cases "timeRemaining w - tickDelta ts w \<le> 0")
      case True
      let ?t = "emitTick (w\<lparr>frames := hs, lastTimestamp := Some ts, timeRemaining := 0\<rparr>)"
      have fr: "frame cfg ts w = handlePhaseEnd cfg ?t"
        using Cons True by (simp add: frame_expiring)
      have e: "emitted w (frame cfg ts w) =
          OnTick ((getState w)\<lparr>snapTimeRemaining := 0\<rparr>) # phaseEndCalls cfg ?t"
        by (rule emitted_append)
           (simp add: fr handlePhaseEnd_calls emitTick_def emit_def getState_def)
      from a Frame show ?thesis
        by (simp add: e)
           (auto simp: fr handlePhaseEnd_status phaseEndCalls_def emitTick_def emit_def
              active_def)
    next
      case False
      with Cons Frame c show ?thesis
        by (simp add: frame_running_status)
    qed
  qed
qed

text \<open>
  Claim C2, amended. For a valid configuration, every state reached from construction
  and every step that changes the status: if the new status is WORK or REST and the
  step is not \<^verbatim>\<open>resume()\<close> (so it is a phase end, by tick or by skip), the step calls
  \<^verbatim>\<open>onPhaseChange\<close> exactly once, with the new status, and never \<^verbatim>\<open>onStateChange\<close>;
  in every other case (into COUNTDOWN on start, into PAUSED on pause, back to the
  interrupted status on resume, into IDLE on reset, into COMPLETE) it calls
  \<^verbatim>\<open>onStateChange\<close> exactly once, with the new status.
\<close>

theorem state_change_callbacks:
  assumes "valid_config cfg" and "w = exec cfg as (createTimer cfg)"
    and "status (step cfg a w) \<noteq> status w"
  shows "if (status (step cfg a w) = WORK \<or> status (step cfg a w) = REST) \<and> a \<noteq> Resume
         then stateChanges (emitted w (step cfg a w)) = [] \<and>
              phaseChanges (emitted w (step cfg a w)) = [status (step cfg a w)]
         else stateChanges (emitted w (step cfg a w)) = [status (step cfg a w)]"
  using assms by (intro status_change_calls) (simp_all add: inv_exec)

theorem state_change_callbacks_witness:
  "valid_config cfg0 \<and> status paused1 = PAUSED \<and> status (step cfg0 Resume paused1) = COUNTDOWN \<and>
   stateChanges (emitted paused1 (step cfg0 Resume paused1)) = [COUNTDOWN]"
proof -
  have c: "status (step cfg0 Resume paused1) \<noteq> status paused1"
    by (simp add: paused1_def run_defs)
  show ?thesis
    using valid_cfg0 c state_change_callbacks [OF valid_cfg0 paused1_def c]
    by (simp add: paused1_def run_defs)
qed

subsection \<open>Settings are always in range\<close>

text \<open>
  Claim C10. Whatever the three settings inputs contain, the configuration that
  \<^verbatim>\<open>getSettings\<close> builds, which is the one \<^verbatim>\<open>handleStart\<close> passes to
  \<^verbatim>\<open>createTimer\<close>, is valid: work and rest seconds in 5..300, rounds in 1..50. Each
  value is the parsed integer clamped into its range, and where \<^verbatim>\<open>parseInt\<close> finds no
  integer it is the fallback: 30, 15 and 8.
\<close>

theorem getSettings_in_range:
  "valid_config (fst (getSettings p)) \<and>
   fst (snd (handleStart p)) = fst (getSettings p) \<and>
   workDuration (fst (getSettings p)) =
     (case parseInt10 (workInput p) of None \<Rightarrow> clamp 30 5 300 | Some n \<Rightarrow> clamp n 5 300) \<and>
   restDuration (fst (getSettings p)) =
     (case parseInt10 (restInput p) of None \<Rightarrow> clamp 15 5 300 | Some n \<Rightarrow> clamp n 5 300) \<and>
   rounds (fst (getSettings p)) =
     (case parseInt10 (roundsInput p) of None \<Rightarrow> clamp 8 1 50 | Some n \<Rightarrow> clamp n 1 50) \<and>
   clamp 30 5 300 = 30 \<and> clamp 15 5 300 = 15 \<and> clamp 8 1 50 = 8"
  by (simp add: getSettings_def handleStart_def sanitizeNumericInput_def valid_config_def
        clamp_def Let_def split: option.splits prod.splits)

text \<open>An example: a number with trailing text, an empty input, a number out of range.\<close>

lemma getSettings_example:
  "getSettings page0 =
     (\<lparr>workDuration = 42, restDuration = 15, rounds = 50\<rparr>,
      \<lparr>workInput = units ''42'', restInput = units ''15'', roundsInput = units ''50'',
       stored = None\<rparr>)"
  by (simp add: page0_def getSettings_def sanitizeNumericInput_def parseInt10_def
        isWhiteSpace_def isDigit_def digitsValue_def clamp_def intToString_def units_def Let_def
        natToString.simps)

subsection \<open>A full run\<close>

lemma lifecycle_append: "lifecycle (xs @ ys) = lifecycle xs @ lifecycle ys"
  by (induction xs rule: lifecycle.induct) simp_all

lemma schedule_full:
  "schedule (2 * m + 1) = COUNTDOWN # concat (replicate m [WORK, REST]) @ [WORK]"
proof (induction m)
  case 0
  show ?case by simp
next
  case (Suc m)
  have "concat (replicate m [WORK, REST]) @ [WORK, REST] = concat (replicate (Suc m) [WORK, REST])"
    by (induction m) simp_all
  then have r: "concat (replicate m [WORK, REST]) @ [WORK, REST, WORK] =
       concat (replicate (Suc m) [WORK, REST]) @ [WORK]"
    by simp
  have "schedule (2 * Suc m + 1) = schedule (2 * m + 1) @ [REST, WORK]"
    by simp
  with Suc r show ?case by simp
qed

lemma run_inv_start:
  "valid_config cfg \<Longrightarrow> run_inv cfg (start cfg (createTimer cfg)) \<and>
     progress cfg (start cfg (createTimer cfg)) = 0"
  by (simp add: run_inv_def inv_start inv_create valid_config_def progress_def)
     (simp add: start_def createTimer_def emit_def requestAnimationFrame_def phase_def)

lemma run_handlePhaseEnd:
  assumes v: "valid_config cfg" and r: "phase_end_ready cfg u"
    and l: "lifecycle (calls u) = map OnPhaseChange (schedule (progress cfg u))"
  shows "run_inv cfg (handlePhaseEnd cfg u) \<and>
         progress cfg (handlePhaseEnd cfg u) = Suc (progress cfg u)"
proof -
  have i: "timer_inv cfg (handlePhaseEnd cfg u)" using v r by (rule inv_handlePhaseEnd)
  from r have n: "previousStatus u = None" "1 \<le> currentRound u"
    "currentRound u \<le> totalRounds u" "totalRounds u = rounds cfg" "active (status u)"
    by (simp_all add: phase_end_ready_def)
  from n(5) consider "status u = COUNTDOWN" | "status u = WORK" | "status u = REST"
    by (auto simp: active_def)
  then show ?thesis
  proof cases
    case 1
    with r have "currentRound u = 1" by (simp add: phase_end_ready_def)
    with 1 n l i show ?thesis
      by (simp add: run_inv_def progress_def phase_def handlePhaseEnd_def emit_def
            requestAnimationFrame_def lifecycle_append)
  next
    case 2
    obtain k where k: "nat (currentRound u) = Suc k" using n(2) by (cases "nat (currentRound u)") auto
    show ?thesis
    proof (cases "currentRound u \<ge> totalRounds u")
      case True
      with n have "currentRound u = rounds cfg" by simp
      with 2 n l i k True show ?thesis
        by (simp add: run_inv_def progress_def phase_def handlePhaseEnd_def emit_def
              lifecycle_append)
    next
      case False
      with 2 n l i k show ?thesis
        by (simp add: run_inv_def progress_def phase_def handlePhaseEnd_def emit_def
              requestAnimationFrame_def lifecycle_append)
    qed
  next
    case 3
    have "nat (currentRound u + 1) = Suc (nat (currentRound u))" using n(2) by simp
    with 3 n l i show ?thesis
      by (simp add: run_inv_def progress_def phase_def handlePhaseEnd_def emit_def
            requestAnimationFrame_def lifecycle_append)
  qed
qed

lemma progress_cong:
  "phase u = phase w \<Longrightarrow> currentRound u = currentRound w \<Longrightarrow>
   progress cfg u = progress cfg w"
  by (cases "phase w") (simp_all add: progress_def)

lemma frame_running_fields:
  assumes "frames w = h # hs" and "\<not> timeRemaining w - tickDelta ts w \<le> 0"
  shows "status (frame cfg ts w) = status w"
    and "previousStatus (frame cfg ts w) = previousStatus w"
    and "currentRound (frame cfg ts w) = currentRound w"
    and "lifecycle (calls (frame cfg ts w)) = lifecycle (calls w)"
  using assms
  by (simp_all add: frame_def tick_def tickDelta_def Let_def emitTick_def emit_def
        requestAnimationFrame_def lifecycle_append)

lemma run_inv_unchanged:
  assumes "run_inv cfg w" and "timer_inv cfg u"
    and "phase u = phase w" and "currentRound u = currentRound w"
    and "status u = COMPLETE \<longleftrightarrow> status w = COMPLETE" and "status u \<noteq> IDLE"
    and "lifecycle (calls u) = lifecycle (calls w)"
  shows "run_inv cfg u \<and> progress cfg u = progress cfg w"
  using assms by (simp add: run_inv_def progress_cong [of u w])

lemma run_step:
  assumes v: "valid_config cfg" and r: "run_inv cfg w" and a: "a \<noteq> Reset"
  shows "run_inv cfg (step cfg a w) \<and>
         progress cfg (step cfg a w) = progress cfg w + (if expires cfg a w then 1 else 0)"
proof -
  from r have i: "timer_inv cfg w" and ni: "status w \<noteq> IDLE" by (simp_all add: run_inv_def)
  have l: "lifecycle (calls w) = map OnPhaseChange (schedule (progress cfg w))"
    if "status w \<noteq> COMPLETE" using r that by (simp add: run_inv_def)
  show ?thesis
  proof (cases a)
    case Start
    with r ni show ?thesis by (simp add: start_def expires_def)
  next
    case Pause
    have "run_inv cfg (pause w) \<and> progress cfg (pause w) = progress cfg w"
    proof (cases "active (status w)")
      case True
      with i have "previousStatus w = None"
        by (cases "previousStatus w") (auto simp: timer_inv_def active_def)
      with True r i show ?thesis
        by (intro run_inv_unchanged [OF r] inv_pause)
           (auto simp: pause_def Let_def emit_def cancelPending_fields phase_def active_def
              lifecycle_append)
    next
      case False
      then have "pause w = w" by (auto simp: pause_def active_def)
      with r show ?thesis by simp
    qed
    with Pause show ?thesis by (simp add: expires_def)
  next
    case Resume
    have "run_inv cfg (resume w) \<and> progress cfg (resume w) = progress cfg w"
    proof (cases "previousStatus w")
      case None
      then have "resume w = w" by (simp add: resume_def)
      with r show ?thesis by simp
    next
      case (Some p)
      with i have "status w = PAUSED" "active p" by (simp_all add: inv_paused)
      with Some r i show ?thesis
        by (intro run_inv_unchanged [OF r] inv_resume)
           (auto simp: resume_def emit_def requestAnimationFrame_def phase_def active_def
              lifecycle_append)
    qed
    with Resume show ?thesis by (simp add: expires_def)
  next
    case Reset
    with a show ?thesis by simp
  next
    case Skip
    show ?thesis
    proof (cases "previousStatus w")
      case None
      show ?thesis
      proof (cases "active (status w)")
        case True
        let ?u = "cancelPending (w\<lparr>timeRemaining := 0\<rparr>)"
        have nc: "status w \<noteq> COMPLETE" using True by (auto simp: active_def)
        have pu: "progress cfg ?u = progress cfg w"
          using None by (intro progress_cong) (simp_all add: phase_def cancelPending_fields)
        have "run_inv cfg (handlePhaseEnd cfg ?u) \<and>
              progress cfg (handlePhaseEnd cfg ?u) = Suc (progress cfg ?u)"
          using v i True l [OF nc]
          by (intro run_handlePhaseEnd ready_skip_active) (simp_all add: pu cancelPending_fields)
        with None True Skip show ?thesis
          by (simp add: skip_active expires_def pu)
      next
        case False
        with None r i Skip show ?thesis
          by (simp add: skip_inactive expires_def timer_inv_def)
      qed
    next
      case (Some p)
      with i have ps: "status w = PAUSED" "active p" by (simp_all add: inv_paused)
      let ?u = "cancelPending (w\<lparr>status := p, previousStatus := None, timeRemaining := 0\<rparr>)"
      have nc: "status w \<noteq> COMPLETE" using ps by simp
      have pu: "progress cfg ?u = progress cfg w"
        using Some by (intro progress_cong) (simp_all add: phase_def cancelPending_fields)
      have "run_inv cfg (handlePhaseEnd cfg ?u) \<and>
            progress cfg (handlePhaseEnd cfg ?u) = Suc (progress cfg ?u)"
        using v i Some l [OF nc]
        by (intro run_handlePhaseEnd ready_skip_paused) (simp_all add: pu cancelPending_fields)
      with Some ps Skip show ?thesis
        by (simp add: skip_paused expires_def pu)
    qed
  next
    case (Frame ts)
    show ?thesis
    proof (cases "frames w")
      case Nil
      with r Frame show ?thesis by (simp add: frame_def expires_def)
    next
      case (Cons h hs)
      with i have q: "active (status w)" "previousStatus w = None" by (simp_all add: inv_queued)
      show ?thesis
      proof (cases "timeRemaining w - tickDelta ts w \<le> 0")
        case True
        let ?u = "emitTick (w\<lparr>frames := hs, lastTimestamp := Some ts, timeRemaining := 0\<rparr>)"
        have nc: "status w \<noteq> COMPLETE" using q by (auto simp: active_def)
        have pu: "progress cfg ?u = progress cfg w"
          using q by (intro progress_cong) (simp_all add: phase_def emitTick_def emit_def)
        have "lifecycle (calls ?u) = lifecycle (calls w)"
          by (simp add: emitTick_def emit_def lifecycle_append)
        with l [OF nc] pu
        have lu: "lifecycle (calls ?u) = map OnPhaseChange (schedule (progress cfg ?u))"
          by (simp only:)
        have "run_inv cfg (handlePhaseEnd cfg ?u) \<and>
              progress cfg (handlePhaseEnd cfg ?u) = Suc (progress cfg ?u)"
          using v ready_tick [OF i Cons] lu by (rule run_handlePhaseEnd)
        with Cons True q Frame show ?thesis
          by (simp add: frame_expiring expires_def pu)
      next
        case False
        have "run_inv cfg (frame cfg ts w) \<and> progress cfg (frame cfg ts w) = progress cfg w"
          using v i ni q
          by (intro run_inv_unchanged [OF r] inv_frame)
             (simp_all add: frame_running_fields [OF Cons False] phase_def)
        with Cons False Frame show ?thesis by (simp add: expires_def)
      qed
    qed
  qed
qed

lemma run_exec:
  "valid_config cfg \<Longrightarrow> run_inv cfg w \<Longrightarrow> Reset \<notin> set as \<Longrightarrow>
   run_inv cfg (exec cfg as w) \<and>
   progress cfg (exec cfg as w) = progress cfg w + expiries cfg as w"
proof (induction as arbitrary: w)
  case Nil
  then show ?case by (simp add: exec_Nil)
next
  case (Cons a as)
  from Cons.prems(3) have na: "a \<noteq> Reset" and nr: "Reset \<notin> set as" by auto
  have s: "run_inv cfg (step cfg a w)"
    "progress cfg (step cfg a w) = progress cfg w + (if expires cfg a w then 1 else 0)"
    using run_step [OF Cons.prems(1) Cons.prems(2) na] by simp_all
  from Cons.IH [OF Cons.prems(1) s(1) nr] s(2) show ?case
    by (simp add: exec_Cons)
qed

lemma complete_iff_progress:
  assumes v: "valid_config cfg" and r: "run_inv cfg w"
  shows "status w = COMPLETE \<longleftrightarrow> progress cfg w = 2 * nat (rounds cfg)"
proof -
  from r have i: "timer_inv cfg w" and ni: "status w \<noteq> IDLE" by (simp_all add: run_inv_def)
  from v have n: "1 \<le> rounds cfg" by (simp add: valid_config_def)
  show ?thesis
  proof (cases "previousStatus w")
    case None
    with i ni n show ?thesis
      by (cases "status w") (auto simp: timer_inv_def phase_def progress_def)
  next
    case (Some p)
    with i have "status w = PAUSED" "active p" by (simp_all add: inv_paused)
    with i Some n show ?thesis
      by (cases p) (auto simp: timer_inv_def phase_def progress_def active_def)
  qed
qed

text \<open>
  Claim C1. For a valid configuration, take any run that begins with \<^verbatim>\<open>start()\<close> on a
  fresh timer and goes on with frames, skips, pauses and resumes (no reset). The run
  has at most \<open>2 * rounds\<close> phase ends, and its status is COMPLETE exactly when it has
  had all of them, each by a tick running out of time or by a skip. When it is
  COMPLETE, the phase changes and completions announced over the whole run are: one
  COUNTDOWN, then WORK and REST in strict alternation with \<open>rounds\<close> WORK and
  \<open>rounds - 1\<close> REST phases, then one \<^verbatim>\<open>onComplete\<close> with the configured values.
\<close>

theorem full_run_visits_all_phases:
  assumes "valid_config cfg" and "Reset \<notin> set as"
    and "w = exec cfg as (start cfg (createTimer cfg))"
  shows "(status w = COMPLETE \<longleftrightarrow>
            expiries cfg as (start cfg (createTimer cfg)) = 2 * nat (rounds cfg)) \<and>
         expiries cfg as (start cfg (createTimer cfg)) \<le> 2 * nat (rounds cfg) \<and>
         (status w = COMPLETE \<longrightarrow>
            lifecycle (calls w) =
              map OnPhaseChange
                (COUNTDOWN # concat (replicate (nat (rounds cfg) - 1) [WORK, REST]) @ [WORK]) @
              [OnComplete (rounds cfg) (workDuration cfg) (restDuration cfg)])"
proof -
  let ?w0 = "start cfg (createTimer cfg)"
  let ?n = "nat (rounds cfg)"
  from assms(1) have n: "1 \<le> rounds cfg" by (simp add: valid_config_def)
  then obtain m where m: "?n = Suc m" by (cases ?n) auto
  have s: "run_inv cfg ?w0" "progress cfg ?w0 = 0"
    using run_inv_start [OF assms(1)] by simp_all
  have e: "run_inv cfg w" "progress cfg w = expiries cfg as ?w0"
    using run_exec [OF assms(1) s(1) assms(2)] s(2) assms(3) by simp_all
  have c: "status w = COMPLETE \<longleftrightarrow> expiries cfg as ?w0 = 2 * ?n"
    using complete_iff_progress [OF assms(1) e(1)] e(2) by simp
  have b: "progress cfg w \<le> 2 * ?n"
  proof -
    from e(1) have i: "timer_inv cfg w" by (simp add: run_inv_def)
    then show ?thesis
      by (cases "phase w") (auto simp: timer_inv_def progress_def)
  qed
  have f: "lifecycle (calls w) =
      map OnPhaseChange (COUNTDOWN # concat (replicate (?n - 1) [WORK, REST]) @ [WORK]) @
      [OnComplete (rounds cfg) (workDuration cfg) (restDuration cfg)]"
    if "status w = COMPLETE"
  proof -
    from that c e(2) have "progress cfg w - 1 = 2 * m + 1" using m by simp
    with that e(1) m show ?thesis
      by (simp only: run_inv_def schedule_full [symmetric]) simp
  qed
  from c b f e(2) show ?thesis by simp
qed

theorem full_run_visits_all_phases_witness:
  "valid_config cfg0 \<and> Reset \<notin> set fullRun \<and>
   expiries cfg0 fullRun (start cfg0 (createTimer cfg0)) = 4 \<and>
   status (exec cfg0 fullRun (start cfg0 (createTimer cfg0))) = COMPLETE \<and>
   lifecycle (calls (exec cfg0 fullRun (start cfg0 (createTimer cfg0)))) =
     [OnPhaseChange COUNTDOWN, OnPhaseChange WORK, OnPhaseChange REST, OnPhaseChange WORK,
      OnComplete 2 30 15]"
proof -
  have r: "Reset \<notin> set fullRun" by (simp add: fullRun_def)
  have x: "expiries cfg0 fullRun (start cfg0 (createTimer cfg0)) = 4"
    by (simp add: fullRun_def run_defs expires_def active_def)
  show ?thesis
    using valid_cfg0 r x full_run_visits_all_phases [OF valid_cfg0 r refl]
    by (simp add: cfg0_def)
qed

end
